theory Spec2Isabelle
  imports Main "HOL-Library.AList" "HOL-Library.Sublist"
begin

section \<open>The persisted context\<close>

text \<open>
  The coordinator keeps one document, \<^verbatim>\<open>.paper_context.json\<close>, whose layout is given in
  \<^verbatim>\<open>paper-assistant/references/context-management.md\<close>: project metadata, the current
  stage, one entry per stage and the user preferences. A stage entry holds a status, an
  optional error and the fields the stage's plugin produced. Python dictionaries keep
  insertion order, so every dictionary is an association list that is read with
  \<^const>\<open>map_of\<close> and written with \<^const>\<open>AList.update\<close> (an existing key keeps its place, a
  new key goes to the end).
\<close>

datatype json =
    JNull
  | JBool bool
  | JNum int
  | JStr string
  | JArr "json list"
  | JObj "(string \<times> json) list"

datatype status = pending | in_progress | completed | failed

datatype stage_error =
    CollaboratorError string
  | ValidationFailed "string list"

record stage_record =
  status :: status
  outputs :: "(string \<times> json) list"
  error :: "stage_error option"

record project =
  name :: string
  created_at :: string
  last_updated :: string

record "context" =
  project :: project
  current_stage :: string
  stages :: "(string \<times> stage_record) list"
  user_preferences :: "(string \<times> string) list"

text \<open>Python exceptions raised by the snippets of the integration guide.\<close>

datatype py_error = ValueError | KeyError | TypeError

section \<open>Rollback (integration-guide.md, Rollback Mechanism)\<close>

definition stages_order :: "string list" where
  "stages_order =
     [''literature_review'', ''hypothesis'', ''code'', ''experiment'', ''writing'']"

text \<open>\<^verbatim>\<open>list.index\<close>: the position of the first occurrence, ValueError (here \<open>None\<close>) otherwise.\<close>

fun index_of :: "'a list \<Rightarrow> 'a \<Rightarrow> nat option" where
  "index_of [] x = None"
| "index_of (y # ys) x = (if y = x then Some 0 else map_option Suc (index_of ys x))"

text \<open>
  \<^verbatim>\<open>context["stages"][stage]["status"] = v\<close>: the lookup of \<open>stage\<close> raises KeyError when the
  stage has no entry; otherwise only the status of that entry changes.
\<close>

definition set_status :: "string \<Rightarrow> status \<Rightarrow> context \<Rightarrow> py_error + context" where
  "set_status stage v ctx =
     (case map_of (stages ctx) stage of
        None \<Rightarrow> Inl KeyError
      | Some r \<Rightarrow> Inr (ctx\<lparr>stages := AList.update stage (r\<lparr>status := v\<rparr>) (stages ctx)\<rparr>))"

text \<open>The loop \<^verbatim>\<open>for stage in ...: context["stages"][stage]["status"] = v\<close>.\<close>

fun set_all_status :: "status \<Rightarrow> string list \<Rightarrow> context \<Rightarrow> py_error + context" where
  "set_all_status v [] ctx = Inr ctx"
| "set_all_status v (s # ss) ctx =
     (case set_status s v ctx of
        Inl e \<Rightarrow> Inl e
      | Inr ctx' \<Rightarrow> set_all_status v ss ctx')"

text \<open>
  \<^verbatim>\<open>rollback_to_stage(target_stage)\<close>. The argument \<open>ctx\<close> is what \<^verbatim>\<open>load_context()\<close>
  returned and the result is what is handed to \<^verbatim>\<open>save_context\<close>; an exception leaves the
  stored document as it was, since the save is the last statement.
\<close>

definition rollback_to_stage :: "string \<Rightarrow> context \<Rightarrow> py_error + context" where
  "rollback_to_stage target_stage ctx =
     (case index_of stages_order target_stage of
        None \<Rightarrow> Inl ValueError
      | Some target_idx \<Rightarrow>
          (case set_all_status pending (drop (target_idx + 1) stages_order) ctx of
             Inl e \<Rightarrow> Inl e
           | Inr ctx1 \<Rightarrow>
               set_status target_stage in_progress (ctx1\<lparr>current_stage := target_stage\<rparr>)))"

text \<open>The entry of a stage, and the stages that come before a target in the fixed order.\<close>

definition stage_of :: "context \<Rightarrow> string \<Rightarrow> stage_record option" where
  "stage_of ctx s = map_of (stages ctx) s"

definition stage_keys :: "context \<Rightarrow> string list" where
  "stage_keys ctx = map fst (stages ctx)"

definition later_stages :: "string \<Rightarrow> string list" where
  "later_stages target =
     (case index_of stages_order target of
        None \<Rightarrow> []
      | Some i \<Rightarrow> drop (i + 1) stages_order)"

definition earlier_stages :: "string \<Rightarrow> string list" where
  "earlier_stages target =
     (case index_of stages_order target of
        None \<Rightarrow> []
      | Some i \<Rightarrow> take i stages_order)"

text \<open>Readers of a result, for statements about concrete runs.\<close>

definition status_in :: "string \<Rightarrow> 'e + context \<Rightarrow> status option" where
  "status_in s res = (case res of Inl e \<Rightarrow> None | Inr c \<Rightarrow> map_option status (stage_of c s))"

definition outputs_in :: "string \<Rightarrow> 'e + context \<Rightarrow> (string \<times> json) list option" where
  "outputs_in s res = (case res of Inl e \<Rightarrow> None | Inr c \<Rightarrow> map_option outputs (stage_of c s))"

definition current_in :: "'e + context \<Rightarrow> string option" where
  "current_in res = (case res of Inl e \<Rightarrow> None | Inr c \<Rightarrow> Some (current_stage c))"

text \<open>
  The example document of the coordinator's skill description: the literature review is
  completed with two of its fields, the other stages are pending. The example gives a
  project name only, so the two dates are empty.
\<close>

definition pending_stage :: stage_record where
  "pending_stage = \<lparr>status = pending, outputs = [], error = None\<rparr>"

definition example_context :: "context" where
  "example_context =
     \<lparr>project = \<lparr>name = ''my-paper'', created_at = [], last_updated = []\<rparr>,
      current_stage = ''literature_review'',
      stages =
        [(''literature_review'',
            \<lparr>status = completed,
             outputs = [(''research_gap'', JStr ''...''), (''summary'', JStr ''...'')],
             error = None\<rparr>),
         (''hypothesis'', pending_stage),
         (''code'', pending_stage),
         (''experiment'', pending_stage),
         (''writing'', pending_stage)],
      user_preferences =
        [(''discipline'', ''cs''), (''methodology'', ''quantitative''),
         (''language'', ''zh''), (''citation_style'', ''IEEE'')]\<rparr>"

section \<open>Starting from an arbitrary stage (integration-guide.md, Context Initialization)\<close>

text \<open>
  The guide's snippet for a user who starts from the experiment stage: it loads the
  context, assigns the current stage, marks the three skipped stages completed and saves.
  Nothing else is assigned and nothing is checked.
\<close>

definition start_from_experiment :: "context \<Rightarrow> py_error + context" where
  "start_from_experiment ctx =
     (case set_status ''literature_review'' completed (ctx\<lparr>current_stage := ''experiment''\<rparr>) of
        Inl e \<Rightarrow> Inl e
      | Inr c1 \<Rightarrow>
          (case set_status ''hypothesis'' completed c1 of
             Inl e \<Rightarrow> Inl e
           | Inr c2 \<Rightarrow> set_status ''code'' completed c2))"

text \<open>
  The same statements with the stage the user starts from and the stages the user skips
  as parameters; the guide lists marking the skipped stages as an optional step, so the
  list may leave stages out.
\<close>

definition start_from_stage :: "string \<Rightarrow> string list \<Rightarrow> context \<Rightarrow> py_error + context" where
  "start_from_stage target skipped ctx =
     set_all_status completed skipped (ctx\<lparr>current_stage := target\<rparr>)"

section \<open>Stage failure (integration-guide.md, Error Handling and Recovery)\<close>

text \<open>
  \<^verbatim>\<open>context["stages"][stage]["error"] = e\<close>, and the guide's two assignments for a stage that
  failed: the status becomes \<open>failed\<close> and the error is recorded; the current stage is not
  assigned.
\<close>

definition set_error :: "string \<Rightarrow> stage_error \<Rightarrow> context \<Rightarrow> py_error + context" where
  "set_error stage e ctx =
     (case map_of (stages ctx) stage of
        None \<Rightarrow> Inl KeyError
      | Some r \<Rightarrow> Inr (ctx\<lparr>stages := AList.update stage (r\<lparr>error := Some e\<rparr>) (stages ctx)\<rparr>))"

definition stage_failed :: "string \<Rightarrow> stage_error \<Rightarrow> context \<Rightarrow> py_error + context" where
  "stage_failed stage e ctx =
     (case set_status stage failed ctx of
        Inl err \<Rightarrow> Inl err
      | Inr c1 \<Rightarrow> set_error stage e c1)"

text \<open>A project whose five stages were all completed, the writing stage being current.\<close>

definition completed_stage :: stage_record where
  "completed_stage = \<lparr>status = completed, outputs = [], error = None\<rparr>"

definition finished_context :: "context" where
  "finished_context =
     \<lparr>project = \<lparr>name = ''my-paper'', created_at = [], last_updated = []\<rparr>,
      current_stage = ''writing'',
      stages =
        [(''literature_review'', completed_stage),
         (''hypothesis'', completed_stage),
         (''code'', completed_stage),
         (''experiment'', completed_stage),
         (''writing'', completed_stage)],
      user_preferences = []\<rparr>"

section \<open>Stage registry and validator\<close>

text \<open>
  Modelled from the spec: the StageRegistry, whose code (\<^verbatim>\<open>scripts/state-checker.py\<close>) is
  not among the sources: the ordered list of the stage identifiers, each with its required
  fields.
\<close>

type_synonym registry = "(string \<times> string list) list"

text \<open>Modelled from the spec: the registry's \<open>all()\<close>, the ordered stage identifiers.\<close>

definition registry_ids :: "registry \<Rightarrow> string list" where
  "registry_ids reg = map fst reg"

text \<open>
  Modelled from the spec: the registry's \<open>next(stageId)\<close>, the identifier that follows in the
  order, \<open>None\<close> at the final stage (and for an identifier that is not in the registry).
\<close>

definition next_stage :: "registry \<Rightarrow> string \<Rightarrow> string option" where
  "next_stage reg s =
     (case index_of (registry_ids reg) s of
        None \<Rightarrow> None
      | Some i \<Rightarrow> (case drop (i + 1) (registry_ids reg) of [] \<Rightarrow> None | n # ns \<Rightarrow> Some n))"

text \<open>
  Modelled from the spec: the values the validator counts as empty (null, the empty
  string, list and object); the spec names no field types, so none are checked.
\<close>

fun is_empty_value :: "json \<Rightarrow> bool" where
  "is_empty_value JNull = True"
| "is_empty_value (JStr s) = (s = [])"
| "is_empty_value (JArr xs) = (xs = [])"
| "is_empty_value (JObj kvs) = (kvs = [])"
| "is_empty_value (JBool b) = False"
| "is_empty_value (JNum n) = False"

text \<open>Modelled from the spec: a field is present when the output holds it with a non-empty value.\<close>

definition field_present :: "(string \<times> json) list \<Rightarrow> string \<Rightarrow> bool" where
  "field_present out f =
     (case map_of out f of None \<Rightarrow> False | Some v \<Rightarrow> \<not> is_empty_value v)"

text \<open>Modelled from the spec: the ValidationResult, pass or fail with the missing fields.\<close>

record validation_result =
  ok :: bool
  missing :: "string list"

text \<open>Modelled from the spec: the required fields that are not present, in registry order.\<close>

definition missing_fields :: "(string \<times> json) list \<Rightarrow> string list \<Rightarrow> string list" where
  "missing_fields out required = filter (\<lambda>f. \<not> field_present out f) required"

text \<open>
  Modelled from the spec: the StageValidator's \<open>validate(stageId, output)\<close>, a pure function
  of the registry entry and the output.
\<close>

definition validate :: "registry \<Rightarrow> string \<Rightarrow> (string \<times> json) list \<Rightarrow> validation_result" where
  "validate reg stage out =
     (let required = (case map_of reg stage of None \<Rightarrow> [] | Some fs \<Rightarrow> fs);
          absent = missing_fields out required
      in \<lparr>ok = (absent = []), missing = absent\<rparr>)"


text \<open>The two-stage registry of the spec's scenarios.\<close>

definition demo_registry :: registry where
  "demo_registry = [(''search'', [''query'']), (''draft'', [''text''])]"

section \<open>Coordinator operations on a pipeline\<close>

text \<open>Modelled from the spec: the result codes of the command surface other than success.\<close>

datatype failure = NotFound | InvalidTransition | IOError | CorruptRecord


text \<open>
  Modelled from the spec: \<open>advance\<close>, whose code (\<^verbatim>\<open>scripts/context-manager.py\<close>,
  \<^verbatim>\<open>scripts/state-checker.py\<close>) is not among the sources. It applies only when the current
  stage is pending or in progress. On a passing validation it writes the output, marks
  the stage completed and moves to the next stage, staying on the final one; on a failing
  validation it writes the output and the missing fields, marks the stage failed and
  stays. A pipeline whose current stage has no entry breaks the data model and is
  reported as a corrupt record.
\<close>

definition advance ::
  "registry \<Rightarrow> context \<Rightarrow> (string \<times> json) list \<Rightarrow> failure + (validation_result \<times> context)" where
  "advance reg p out =
     (let cur = current_stage p in
      case stage_of p cur of
        None \<Rightarrow> Inl CorruptRecord
      | Some r \<Rightarrow>
          if status r \<noteq> pending \<and> status r \<noteq> in_progress then Inl InvalidTransition
          else
            let res = validate reg cur out in
            if ok res then
              Inr (res,
                   p\<lparr>stages := AList.update cur (r\<lparr>status := completed, outputs := out\<rparr>) (stages p),
                     current_stage := (case next_stage reg cur of None \<Rightarrow> cur | Some n \<Rightarrow> n)\<rparr>)
            else
              Inr (res,
                   p\<lparr>stages := AList.update cur
                        (r\<lparr>status := failed, outputs := out,
                           error := Some (ValidationFailed (missing res))\<rparr>) (stages p)\<rparr>))"




section \<open>Context store\<close>

text \<open>
  Modelled from the spec: the ContextStore, whose code (\<^verbatim>\<open>scripts/context-manager.py\<close>) is
  not among the sources. One record per pipeline, keyed by the pipeline's identifier (its
  project name). A save writes the new record to a staging place and then replaces the
  persisted record in one step; it can fail before the write, during it (leaving a torn
  staging record) or before the replacement. A load reads the persisted record only; a
  record that does not parse is reported as corrupt.
\<close>

datatype document = Whole "context" | Torn

record store =
  persisted :: "(string \<times> document) list"
  staged :: "document option"

datatype io_fault = NoFault | FailBeforeWrite | FailDuringWrite | FailBeforeReplace

text \<open>Modelled from the spec: the identifier of a pipeline, its \<open>id\<close>/\<open>name\<close>.\<close>

definition pipeline_id :: "context \<Rightarrow> string" where
  "pipeline_id p = name (project p)"

text \<open>Modelled from the spec: \<open>load(pipelineId)\<close>, the pipeline, \<open>NotFound\<close> or \<open>CorruptRecord\<close>.\<close>

definition load :: "store \<Rightarrow> string \<Rightarrow> failure + context" where
  "load st pid =
     (case map_of (persisted st) pid of
        None \<Rightarrow> Inl NotFound
      | Some Torn \<Rightarrow> Inl CorruptRecord
      | Some (Whole p) \<Rightarrow> Inr p)"

text \<open>Modelled from the spec: \<open>exists(pipelineId)\<close>.\<close>

definition exists_record :: "store \<Rightarrow> string \<Rightarrow> bool" where
  "exists_record st pid = (map_of (persisted st) pid \<noteq> None)"

text \<open>
  Modelled from the spec: \<open>save(Pipeline)\<close>, atomic; the first argument says where the
  underlying storage fails, if it does.
\<close>

fun save :: "io_fault \<Rightarrow> context \<Rightarrow> store \<Rightarrow> failure option \<times> store" where
  "save FailBeforeWrite p st = (Some IOError, st)"
| "save FailDuringWrite p st = (Some IOError, st\<lparr>staged := Some Torn\<rparr>)"
| "save FailBeforeReplace p st = (Some IOError, st\<lparr>staged := Some (Whole p)\<rparr>)"
| "save NoFault p st =
     (None, \<lparr>persisted = AList.update (pipeline_id p) (Whole p) (persisted st), staged = None\<rparr>)"

text \<open>
  Modelled from the spec: the command \<open>advance(pipelineId, output)\<close> as load, transition,
  save. Every failure is passed on as it is; a failure before the save leaves the store
  untouched.
\<close>

definition advance_command ::
  "registry \<Rightarrow> io_fault \<Rightarrow> string \<Rightarrow> (string \<times> json) list \<Rightarrow> store \<Rightarrow>
     (failure + validation_result) \<times> store" where
  "advance_command reg fault pid out st =
     (case load st pid of
        Inl e \<Rightarrow> (Inl e, st)
      | Inr p \<Rightarrow>
          (case advance reg p out of
             Inl e \<Rightarrow> (Inl e, st)
           | Inr (res, p') \<Rightarrow>
               (case save fault p' st of
                  (Some e, st') \<Rightarrow> (Inl e, st')
                | (None, st') \<Rightarrow> (Inr res, st'))))"


text \<open>The pipeline of the spec's scenarios: fresh, after the search stage, and finished.\<close>

definition demo_context :: "context" where
  "demo_context =
     \<lparr>project = \<lparr>name = ''demo'', created_at = [], last_updated = []\<rparr>,
      current_stage = ''search'',
      stages = [(''search'', pending_stage), (''draft'', pending_stage)],
      user_preferences = []\<rparr>"

definition demo_at_draft :: "context" where
  "demo_at_draft =
     demo_context
       \<lparr>current_stage := ''draft'',
        stages :=
          [(''search'', \<lparr>status = completed, outputs = [(''query'', JStr ''x'')], error = None\<rparr>),
           (''draft'', pending_stage)]\<rparr>"

definition demo_finished :: "context" where
  "demo_finished =
     demo_context
       \<lparr>current_stage := ''draft'',
        stages :=
          [(''search'', \<lparr>status = completed, outputs = [(''query'', JStr ''x'')], error = None\<rparr>),
           (''draft'', \<lparr>status = completed, outputs = [(''text'', JStr ''y'')], error = None\<rparr>)]\<rparr>"

definition store_of :: "context \<Rightarrow> store" where
  "store_of p = \<lparr>persisted = [(pipeline_id p, Whole p)], staged = None\<rparr>"


section \<open>Reachable pipelines of the paper workflow\<close>






section \<open>The stored document\<close>

text \<open>
  The snippets work on the dictionary that \<^verbatim>\<open>json.load\<close> returns from
  \<^verbatim>\<open>.paper_context.json\<close>, whatever its members are. On that value \<^verbatim>\<open>d[k]\<close> raises
  TypeError when \<open>d\<close> is not an object (a list or a string subscripted by a string, a
  number, a boolean, null) and KeyError when the object has no member \<open>k\<close>, and
  \<^verbatim>\<open>d[k] = v\<close> replaces the member \<open>k\<close> of an object or appends it.
\<close>

fun getitem :: "json \<Rightarrow> string \<Rightarrow> py_error + json" where
  "getitem (JObj kvs) k = (case map_of kvs k of None \<Rightarrow> Inl KeyError | Some v \<Rightarrow> Inr v)"
| "getitem JNull k = Inl TypeError"
| "getitem (JBool b) k = Inl TypeError"
| "getitem (JNum n) k = Inl TypeError"
| "getitem (JStr s) k = Inl TypeError"
| "getitem (JArr xs) k = Inl TypeError"

fun setitem :: "json \<Rightarrow> string \<Rightarrow> json \<Rightarrow> py_error + json" where
  "setitem (JObj kvs) k v = Inr (JObj (AList.update k v kvs))"
| "setitem JNull k v = Inl TypeError"
| "setitem (JBool b) k v = Inl TypeError"
| "setitem (JNum n) k v = Inl TypeError"
| "setitem (JStr s) k v = Inl TypeError"
| "setitem (JArr xs) k v = Inl TypeError"

text \<open>
  \<^verbatim>\<open>context["stages"][stage]["status"] = v\<close> on the document: the two subscripts are
  evaluated, the entry of the stage is changed in place, and the document is the same
  document around the changed entry (\<^verbatim>\<open>json.load\<close> shares no object between two places).
\<close>

definition assign_status :: "string \<Rightarrow> string \<Rightarrow> json \<Rightarrow> py_error + json" where
  "assign_status stage v d =
     (case getitem d ''stages'' of
        Inl e \<Rightarrow> Inl e
      | Inr ss \<Rightarrow>
          (case getitem ss stage of
             Inl e \<Rightarrow> Inl e
           | Inr r \<Rightarrow>
               (case setitem r ''status'' (JStr v) of
                  Inl e \<Rightarrow> Inl e
                | Inr r' \<Rightarrow>
                    (case setitem ss stage r' of
                       Inl e \<Rightarrow> Inl e
                     | Inr ss' \<Rightarrow> setitem d ''stages'' ss'))))"

fun assign_all_status :: "string \<Rightarrow> string list \<Rightarrow> json \<Rightarrow> py_error + json" where
  "assign_all_status v [] d = Inr d"
| "assign_all_status v (s # ss) d =
     (case assign_status s v d of
        Inl e \<Rightarrow> Inl e
      | Inr d' \<Rightarrow> assign_all_status v ss d')"

text \<open>
  \<^verbatim>\<open>rollback_to_stage(target_stage)\<close> and the guide's start from the experiment stage, read
  on the document: the argument is what \<^verbatim>\<open>load_context()\<close> returned, the result is what is
  handed to \<^verbatim>\<open>save_context\<close>.
\<close>

definition rollback_to_stage_document :: "string \<Rightarrow> json \<Rightarrow> py_error + json" where
  "rollback_to_stage_document target_stage d =
     (case index_of stages_order target_stage of
        None \<Rightarrow> Inl ValueError
      | Some target_idx \<Rightarrow>
          (case assign_all_status ''pending'' (drop (target_idx + 1) stages_order) d of
             Inl e \<Rightarrow> Inl e
           | Inr d1 \<Rightarrow>
               (case setitem d1 ''current_stage'' (JStr target_stage) of
                  Inl e \<Rightarrow> Inl e
                | Inr d2 \<Rightarrow> assign_status target_stage ''in_progress'' d2)))"

definition start_from_experiment_document :: "json \<Rightarrow> py_error + json" where
  "start_from_experiment_document d =
     (case setitem d ''current_stage'' (JStr ''experiment'') of
        Inl e \<Rightarrow> Inl e
      | Inr d1 \<Rightarrow>
          (case assign_status ''literature_review'' ''completed'' d1 of
             Inl e \<Rightarrow> Inl e
           | Inr d2 \<Rightarrow>
               (case assign_status ''hypothesis'' ''completed'' d2 of
                  Inl e \<Rightarrow> Inl e
                | Inr d3 \<Rightarrow> assign_status ''code'' ''completed'' d3)))"

text \<open>The names of the top-level members of a document.\<close>

fun member_names :: "json \<Rightarrow> string list" where
  "member_names (JObj kvs) = map fst kvs"
| "member_names JNull = []"
| "member_names (JBool b) = []"
| "member_names (JNum n) = []"
| "member_names (JStr s) = []"
| "member_names (JArr xs) = []"

text \<open>The example document printed in the coordinator's skill description.\<close>

definition skill_example_document :: json where
  "skill_example_document =
     JObj [(''project_name'', JStr ''my-paper''),
           (''current_stage'', JStr ''literature_review''),
           (''stages'',
              JObj [(''literature_review'',
                       JObj [(''status'', JStr ''completed''),
                             (''research_gap'', JStr ''...''),
                             (''summary'', JStr ''...'')]),
                    (''hypothesis'', JObj [(''status'', JStr ''pending'')]),
                    (''code'', JObj [(''status'', JStr ''pending'')]),
                    (''experiment'', JObj [(''status'', JStr ''pending'')]),
                    (''writing'', JObj [(''status'', JStr ''pending'')])]),
           (''user_preferences'',
              JObj [(''discipline'', JStr ''cs''),
                    (''methodology'', JStr ''quantitative''),
                    (''language'', JStr ''zh''),
                    (''citation_style'', JStr ''IEEE'')])]"

text \<open>
  The example document after a rollback to the hypothesis stage, and after the guide's
  start from the experiment stage.
\<close>

definition example_rolled_back :: json where
  "example_rolled_back =
     JObj [(''project_name'', JStr ''my-paper''),
           (''current_stage'', JStr ''hypothesis''),
           (''stages'',
              JObj [(''literature_review'',
                       JObj [(''status'', JStr ''completed''),
                             (''research_gap'', JStr ''...''),
                             (''summary'', JStr ''...'')]),
                    (''hypothesis'', JObj [(''status'', JStr ''in_progress'')]),
                    (''code'', JObj [(''status'', JStr ''pending'')]),
                    (''experiment'', JObj [(''status'', JStr ''pending'')]),
                    (''writing'', JObj [(''status'', JStr ''pending'')])]),
           (''user_preferences'',
              JObj [(''discipline'', JStr ''cs''),
                    (''methodology'', JStr ''quantitative''),
                    (''language'', JStr ''zh''),
                    (''citation_style'', JStr ''IEEE'')])]"

definition example_started :: json where
  "example_started =
     JObj [(''project_name'', JStr ''my-paper''),
           (''current_stage'', JStr ''experiment''),
           (''stages'',
              JObj [(''literature_review'',
                       JObj [(''status'', JStr ''completed''),
                             (''research_gap'', JStr ''...''),
                             (''summary'', JStr ''...'')]),
                    (''hypothesis'', JObj [(''status'', JStr ''completed'')]),
                    (''code'', JObj [(''status'', JStr ''completed'')]),
                    (''experiment'', JObj [(''status'', JStr ''pending'')]),
                    (''writing'', JObj [(''status'', JStr ''pending'')])]),
           (''user_preferences'',
              JObj [(''discipline'', JStr ''cs''),
                    (''methodology'', JStr ''quantitative''),
                    (''language'', JStr ''zh''),
                    (''citation_style'', JStr ''IEEE'')])]"

section \<open>The skill installer (scripts/install-codex.js)\<close>

text \<open>
  The installer modelled is \<^verbatim>\<open>install-codex.js\<close>, which calls \<open>install\<close> when it is loaded.
  \<^verbatim>\<open>install-opencode.js\<close> repeats lines of its array of candidates inside
  \<open>getOpenCodeSkillsDir\<close> and does not parse, so its \<open>install\<close> never runs; it is left out.

  The installer reads the repository (the parent of the scripts directory) and writes
  below the user's home directory. A file system is a tree of regular files and
  directories, a path being the list of names from the root of its tree, a directory
  listing its entries by name; the repository and the home directory are two such trees.
  This describes the runs in which neither tree holds a link or a special file, names are
  compared as they are written, and neither of the repository and the skills directory
  lies inside the other; the statements below are about these runs. Permissions, limits of
  space and of the length of a name, and the console output are not modelled. A Node call
  that throws ends the script, and what was written before stays written, so the
  operations return the tree they leave behind together with the error, if any.
\<close>

datatype node = File string | Dir "(string \<times> node) list"


text \<open>The node at a path, \<open>None\<close> when a name is missing or a file stands in the way.\<close>

fun lookup :: "node \<Rightarrow> string list \<Rightarrow> node option" where
  "lookup n [] = Some n"
| "lookup (File c) (x # xs) = None"
| "lookup (Dir es) (x # xs) = (case map_of es x of None \<Rightarrow> None | Some ch \<Rightarrow> lookup ch xs)"































section \<open>Lemmas on the status assignments\<close>

lemma index_of_Some_mem: "index_of xs x = Some i \<Longrightarrow> x \<in> set xs"
  by (induction xs arbitrary: i) (auto split: if_splits)

lemma index_of_mem_Some: "x \<in> set xs \<Longrightarrow> \<exists>i. index_of xs x = Some i"
  by (induction xs) auto

lemma index_of_nth: "index_of xs x = Some i \<Longrightarrow> i < length xs \<and> xs ! i = x"
  by (induction xs arbitrary: i) (auto split: if_splits)

lemma index_of_not_later:
  "distinct xs \<Longrightarrow> index_of xs x = Some i \<Longrightarrow> x \<notin> set (drop (i + 1) xs)"
proof (induction xs arbitrary: i)
  case Nil
  then show ?case by simp
next
  case (Cons y ys)
  show ?case
  proof (cases "y = x")
    case True
    with Cons.prems show ?thesis by simp
  next
    case False
    with Cons.prems obtain j where j: "index_of ys x = Some j" and i: "i = Suc j"
      by auto
    from Cons.IH [OF _ j] Cons.prems(1) have "x \<notin> set (drop (j + 1) ys)" by simp
    with i show ?thesis by simp
  qed
qed

lemma distinct_stages_order: "distinct stages_order"
  by (simp add: stages_order_def)

lemma target_not_later: "target \<notin> set (later_stages target)"
proof (cases "index_of stages_order target")
  case None
  then show ?thesis by (simp add: later_stages_def)
next
  case (Some i)
  from index_of_not_later [OF distinct_stages_order Some] Some
  show ?thesis by (simp add: later_stages_def)
qed

lemma set_status_Inr:
  "set_status s v ctx = Inr ctx' \<longleftrightarrow>
     (\<exists>r. map_of (stages ctx) s = Some r \<and>
          ctx' = ctx\<lparr>stages := AList.update s (r\<lparr>status := v\<rparr>) (stages ctx)\<rparr>)"
  by (auto simp: set_status_def split: option.splits)

lemma set_status_fields:
  assumes "set_status s v ctx = Inr ctx'"
  shows "current_stage ctx' = current_stage ctx"
    and "project ctx' = project ctx"
    and "user_preferences ctx' = user_preferences ctx"
    and "stage_keys ctx' = stage_keys ctx"
proof -
  from assms obtain r where r: "map_of (stages ctx) s = Some r"
    and c: "ctx' = ctx\<lparr>stages := AList.update s (r\<lparr>status := v\<rparr>) (stages ctx)\<rparr>"
    by (auto simp: set_status_Inr)
  from r have "s \<in> fst ` set (stages ctx)"
    by (force dest: map_of_SomeD)
  then show "stage_keys ctx' = stage_keys ctx"
    by (simp add: c stage_keys_def update_keys)
  show "current_stage ctx' = current_stage ctx" "project ctx' = project ctx"
    "user_preferences ctx' = user_preferences ctx"
    by (simp_all add: c)
qed

lemma set_status_stage_of:
  assumes "set_status s v ctx = Inr ctx'"
  shows "stage_of ctx' k =
     (if k = s then map_option (\<lambda>r. r\<lparr>status := v\<rparr>) (stage_of ctx s) else stage_of ctx k)"
  using assms by (auto simp: set_status_Inr stage_of_def update_conv')

lemma set_status_same:
  assumes "stage_of ctx s = Some r" and "status r = v"
  shows "set_status s v ctx = Inr ctx"
proof -
  have "r\<lparr>status := v\<rparr> = r" using assms(2) by simp
  moreover have "AList.update s r (stages ctx) = stages ctx"
    using assms(1) by (simp add: stage_of_def update_triv)
  ultimately show ?thesis
    using assms(1) by (simp add: set_status_def stage_of_def)
qed

lemma set_status_total:
  "s \<in> set (stage_keys ctx) \<Longrightarrow> \<exists>ctx'. set_status s v ctx = Inr ctx'"
  by (cases "map_of (stages ctx) s")
     (auto simp: set_status_def stage_keys_def map_of_eq_None_iff)

lemma set_all_status_fields:
  "set_all_status v ss ctx = Inr ctx' \<Longrightarrow>
     current_stage ctx' = current_stage ctx \<and> project ctx' = project ctx \<and>
     user_preferences ctx' = user_preferences ctx \<and> stage_keys ctx' = stage_keys ctx"
proof (induction ss arbitrary: ctx)
  case Nil
  then show ?case by simp
next
  case (Cons s ss)
  then obtain c1 where c1: "set_status s v ctx = Inr c1" and r: "set_all_status v ss c1 = Inr ctx'"
    by (auto split: sum.splits)
  from Cons.IH [OF r] set_status_fields [OF c1] show ?case by simp
qed

lemma set_all_status_stage_of:
  "set_all_status v ss ctx = Inr ctx' \<Longrightarrow>
     stage_of ctx' k =
       (if k \<in> set ss then map_option (\<lambda>r. r\<lparr>status := v\<rparr>) (stage_of ctx k) else stage_of ctx k)"
proof (induction ss arbitrary: ctx)
  case Nil
  then show ?case by simp
next
  case (Cons s ss)
  then obtain c1 where c1: "set_status s v ctx = Inr c1" and r: "set_all_status v ss c1 = Inr ctx'"
    by (auto split: sum.splits)
  show ?case
    unfolding Cons.IH [OF r] set_status_stage_of [OF c1]
    by (cases "stage_of ctx s") (auto simp: option.map_comp comp_def)
qed

lemma set_all_status_same:
  "(\<And>s. s \<in> set ss \<Longrightarrow> \<exists>r. stage_of ctx s = Some r \<and> status r = v) \<Longrightarrow>
     set_all_status v ss ctx = Inr ctx"
proof (induction ss)
  case Nil
  then show ?case by simp
next
  case (Cons s ss)
  from Cons.prems [of s] obtain r where "stage_of ctx s = Some r" "status r = v" by auto
  then have "set_status s v ctx = Inr ctx" by (rule set_status_same)
  moreover have "set_all_status v ss ctx = Inr ctx"
    by (rule Cons.IH) (simp add: Cons.prems)
  ultimately show ?case by simp
qed

lemma set_all_status_total:
  "set ss \<subseteq> set (stage_keys ctx) \<Longrightarrow> \<exists>ctx'. set_all_status v ss ctx = Inr ctx'"
proof (induction ss arbitrary: ctx)
  case Nil
  then show ?case by simp
next
  case (Cons s ss)
  then obtain c1 where c1: "set_status s v ctx = Inr c1"
    using set_status_total [of s ctx v] by auto
  with Cons.prems have "set ss \<subseteq> set (stage_keys c1)"
    by (simp add: set_status_fields [OF c1])
  from Cons.IH [OF this] c1 show ?case by simp
qed

lemma set_all_status_entries:
  "set_all_status v ss ctx = Inr ctx' \<Longrightarrow> s \<in> set ss \<Longrightarrow> \<exists>r. stage_of ctx s = Some r"
proof (induction ss arbitrary: ctx)
  case Nil
  then show ?case by simp
next
  case (Cons a ss)
  then obtain c1 where c1: "set_status a v ctx = Inr c1" and r: "set_all_status v ss c1 = Inr ctx'"
    by (auto split: sum.splits)
  show ?case
  proof (cases "s = a")
    case True
    with c1 show ?thesis by (auto simp: set_status_Inr stage_of_def)
  next
    case False
    with Cons.prems have "s \<in> set ss" by simp
    from Cons.IH [OF r this] obtain r' where "stage_of c1 s = Some r'" by auto
    moreover have "stage_of c1 s = stage_of ctx s"
      using set_status_stage_of [OF c1, of s] False by simp
    ultimately show ?thesis by simp
  qed
qed

lemma rollback_to_stage_Inr:
  assumes "rollback_to_stage target ctx = Inr ctx'"
  shows "target \<in> set stages_order"
    and "current_stage ctx' = target"
    and "stage_keys ctx' = stage_keys ctx"
    and "project ctx' = project ctx"
    and "user_preferences ctx' = user_preferences ctx"
    and "\<exists>r. stage_of ctx target = Some r \<and> stage_of ctx' target = Some (r\<lparr>status := in_progress\<rparr>)"
    and "\<And>s. s \<in> set (later_stages target) \<Longrightarrow>
           \<exists>r. stage_of ctx s = Some r \<and> stage_of ctx' s = Some (r\<lparr>status := pending\<rparr>)"
    and "\<And>s. s \<noteq> target \<Longrightarrow> s \<notin> set (later_stages target) \<Longrightarrow> stage_of ctx' s = stage_of ctx s"
proof -
  from assms obtain i c1 where i: "index_of stages_order target = Some i"
    and c1: "set_all_status pending (drop (i + 1) stages_order) ctx = Inr c1"
    and c2: "set_status target in_progress (c1\<lparr>current_stage := target\<rparr>) = Inr ctx'"
    by (auto simp: rollback_to_stage_def split: option.splits sum.splits)
  have later: "later_stages target = drop (i + 1) stages_order"
    using i by (simp add: later_stages_def)
  have notin: "target \<notin> set (drop (i + 1) stages_order)"
    using target_not_later [of target] by (simp add: later)
  let ?c = "c1\<lparr>current_stage := target\<rparr>"
  have sc: "stage_of ?c = stage_of c1" by (simp add: stage_of_def fun_eq_iff)
  show "target \<in> set stages_order" using i by (rule index_of_Some_mem)
  show "current_stage ctx' = target"
    using set_status_fields(1) [OF c2] by simp
  show "stage_keys ctx' = stage_keys ctx"
    using set_status_fields(4) [OF c2] set_all_status_fields [OF c1] by (simp add: stage_keys_def)
  show "project ctx' = project ctx"
    using set_status_fields(2) [OF c2] set_all_status_fields [OF c1] by simp
  show "user_preferences ctx' = user_preferences ctx"
    using set_status_fields(3) [OF c2] set_all_status_fields [OF c1] by simp
  have t1: "stage_of c1 target = stage_of ctx target"
    using set_all_status_stage_of [OF c1, of target] notin by simp
  from c2 obtain r where r: "stage_of ?c target = Some r"
    by (auto simp: set_status_Inr stage_of_def)
  with set_status_stage_of [OF c2, of target] sc t1
  show "\<exists>r. stage_of ctx target = Some r \<and> stage_of ctx' target = Some (r\<lparr>status := in_progress\<rparr>)"
    by simp
  show "\<exists>r. stage_of ctx s = Some r \<and> stage_of ctx' s = Some (r\<lparr>status := pending\<rparr>)"
    if s: "s \<in> set (later_stages target)" for s
  proof -
    from s have s': "s \<in> set (drop (i + 1) stages_order)" by (simp add: later)
    with notin have ne: "s \<noteq> target" by auto
    from set_all_status_entries [OF c1 s'] obtain r where r: "stage_of ctx s = Some r" by auto
    have "stage_of ctx' s = stage_of c1 s"
      using set_status_stage_of [OF c2, of s] ne sc by simp
    also have "\<dots> = Some (r\<lparr>status := pending\<rparr>)"
      using set_all_status_stage_of [OF c1, of s] s' r by simp
    finally show ?thesis using r by simp
  qed
  show "stage_of ctx' s = stage_of ctx s"
    if "s \<noteq> target" and "s \<notin> set (later_stages target)" for s
  proof -
    have "stage_of ctx' s = stage_of c1 s"
      using set_status_stage_of [OF c2, of s] that(1) sc by simp
    also have "\<dots> = stage_of ctx s"
      using set_all_status_stage_of [OF c1, of s] that(2) by (simp add: later)
    finally show ?thesis .
  qed
qed

lemma rollback_to_stage_total:
  assumes "target \<in> set stages_order" and "set stages_order \<subseteq> set (stage_keys ctx)"
  shows "\<exists>ctx'. rollback_to_stage target ctx = Inr ctx'"
proof -
  from assms(1) obtain i where i: "index_of stages_order target = Some i"
    using index_of_mem_Some by fastforce
  have "set (drop (i + 1) stages_order) \<subseteq> set (stage_keys ctx)"
    using assms(2) set_drop_subset [of "i + 1" stages_order] by blast
  from set_all_status_total [OF this] obtain c1
    where c1: "set_all_status pending (drop (i + 1) stages_order) ctx = Inr c1" by blast
  have "stage_keys (c1\<lparr>current_stage := target\<rparr>) = stage_keys ctx"
    using set_all_status_fields [OF c1] by (simp add: stage_keys_def)
  with assms have "target \<in> set (stage_keys (c1\<lparr>current_stage := target\<rparr>))" by auto
  from set_status_total [OF this] obtain c2
    where "set_status target in_progress (c1\<lparr>current_stage := target\<rparr>) = Inr c2" by blast
  with i c1 show ?thesis by (simp add: rollback_to_stage_def)
qed

lemma rollback_to_stage_again:
  assumes "rollback_to_stage target ctx = Inr ctx'"
  shows "rollback_to_stage target ctx' = Inr ctx'"
proof -
  note R = rollback_to_stage_Inr [OF assms]
  from R(1) obtain i where i: "index_of stages_order target = Some i"
    using index_of_mem_Some by fastforce
  have later: "later_stages target = drop (i + 1) stages_order"
    using i by (simp add: later_stages_def)
  have "set_all_status pending (drop (i + 1) stages_order) ctx' = Inr ctx'"
  proof (rule set_all_status_same)
    fix s assume "s \<in> set (drop (i + 1) stages_order)"
    then have "s \<in> set (later_stages target)" by (simp add: later)
    from R(7) [OF this] show "\<exists>r. stage_of ctx' s = Some r \<and> status r = pending" by auto
  qed
  moreover have "ctx'\<lparr>current_stage := target\<rparr> = ctx'" using R(2) by simp
  moreover have "set_status target in_progress ctx' = Inr ctx'"
  proof -
    from R(6) obtain r where "stage_of ctx' target = Some (r\<lparr>status := in_progress\<rparr>)" by auto
    then show ?thesis by (rule set_status_same) simp
  qed
  ultimately show ?thesis using i by (simp add: rollback_to_stage_def)
qed

lemma earlier_not_target_later:
  assumes "s \<in> set (earlier_stages target)"
  shows "s \<noteq> target" and "s \<notin> set (later_stages target)"
proof -
  from assms obtain i where i: "index_of stages_order target = Some i"
    by (cases "index_of stages_order target") (auto simp: earlier_stages_def)
  with assms have s: "s \<in> set (take i stages_order)"
    by (simp add: earlier_stages_def)
  from index_of_nth [OF i] have n: "i < length stages_order" "stages_order ! i = target" by auto
  have "distinct (take i stages_order @ stages_order ! i # drop (Suc i) stages_order)"
    using distinct_stages_order id_take_nth_drop [OF n(1)] by simp
  with s n(2) show "s \<noteq> target" and "s \<notin> set (later_stages target)"
    using i by (auto simp: later_stages_def)
qed

section \<open>Rollback: what it resets and what it keeps\<close>

text \<open>
  Claim C1, as amended. For a target among the five stages and a context that has an entry
  for each of them, \<open>rollback_to_stage\<close> returns a context in which the current stage is the
  target, the target's status is \<open>in_progress\<close>, the status of every stage after the target
  is \<open>pending\<close>, and nothing else of these entries changes (their fields and their error
  stay); the entries of the stages before the target are the same, and so is the list of
  stage keys.
\<close>

theorem rollback_to_stage_effect:
  assumes "target \<in> set stages_order" and "set stages_order \<subseteq> set (stage_keys ctx)"
  shows "\<exists>ctx'. rollback_to_stage target ctx = Inr ctx' \<and>
           current_stage ctx' = target \<and>
           (\<exists>r. stage_of ctx target = Some r \<and>
                stage_of ctx' target = Some (r\<lparr>status := in_progress\<rparr>)) \<and>
           (\<forall>s \<in> set (later_stages target).
              \<exists>r. stage_of ctx s = Some r \<and> stage_of ctx' s = Some (r\<lparr>status := pending\<rparr>)) \<and>
           (\<forall>s \<in> set (earlier_stages target). stage_of ctx' s = stage_of ctx s) \<and>
           stage_keys ctx' = stage_keys ctx"
proof -
  from rollback_to_stage_total [OF assms] obtain ctx'
    where r: "rollback_to_stage target ctx = Inr ctx'" by blast
  note R = rollback_to_stage_Inr [OF r]
  have "\<forall>s \<in> set (earlier_stages target). stage_of ctx' s = stage_of ctx s"
    using R(8) earlier_not_target_later by blast
  with r R(2,3,6,7) show ?thesis by blast
qed

lemma example_keys: "stage_keys example_context = stages_order"
  by (simp add: stage_keys_def example_context_def stages_order_def)

theorem rollback_to_stage_effect_witness:
  "''code'' \<in> set stages_order \<and> set stages_order \<subseteq> set (stage_keys example_context) \<and>
   (\<exists>ctx'. rollback_to_stage ''code'' example_context = Inr ctx' \<and>
           current_stage ctx' = ''code'' \<and>
           (\<exists>r. stage_of example_context ''code'' = Some r \<and>
                stage_of ctx' ''code'' = Some (r\<lparr>status := in_progress\<rparr>)) \<and>
           (\<forall>s \<in> set (later_stages ''code'').
              \<exists>r. stage_of example_context s = Some r \<and>
                  stage_of ctx' s = Some (r\<lparr>status := pending\<rparr>)) \<and>
           (\<forall>s \<in> set (earlier_stages ''code''). stage_of ctx' s = stage_of example_context s) \<and>
           stage_keys ctx' = stage_keys example_context)"
proof -
  have a: "''code'' \<in> set stages_order" by (simp add: stages_order_def)
  have b: "set stages_order \<subseteq> set (stage_keys example_context)" by (simp add: example_keys)
  from a b rollback_to_stage_effect [OF a b] show ?thesis by blast
qed

text \<open>
  On the example document, rolling back to the literature review leaves that stage
  \<open>in_progress\<close>, not \<open>pending\<close>, and keeps its two recorded fields.
\<close>

theorem rollback_to_stage_counterexample:
  "status_in ''literature_review'' (rollback_to_stage ''literature_review'' example_context)
     = Some in_progress \<and>
   outputs_in ''literature_review'' (rollback_to_stage ''literature_review'' example_context)
     = Some [(''research_gap'', JStr ''...''), (''summary'', JStr ''...'')]"
  by (simp add: rollback_to_stage_def stages_order_def set_status_def example_context_def
      pending_stage_def status_in_def outputs_in_def stage_of_def)

text \<open>
  Claim C7. Rollback is idempotent: for a target among the five stages and a context with
  an entry for each of them, the first rollback returns a context, and rolling that
  context back to the same target returns it unchanged.
\<close>

theorem rollback_to_stage_idempotent:
  assumes "target \<in> set stages_order" and "set stages_order \<subseteq> set (stage_keys ctx)"
  shows "\<exists>ctx'. rollback_to_stage target ctx = Inr ctx' \<and> rollback_to_stage target ctx' = Inr ctx'"
proof -
  from rollback_to_stage_total [OF assms] obtain ctx'
    where r: "rollback_to_stage target ctx = Inr ctx'" by blast
  from r rollback_to_stage_again [OF r] show ?thesis by blast
qed

theorem rollback_to_stage_idempotent_witness:
  "''hypothesis'' \<in> set stages_order \<and> set stages_order \<subseteq> set (stage_keys example_context) \<and>
   (\<exists>ctx'. rollback_to_stage ''hypothesis'' example_context = Inr ctx' \<and>
           rollback_to_stage ''hypothesis'' ctx' = Inr ctx')"
proof -
  have a: "''hypothesis'' \<in> set stages_order" by (simp add: stages_order_def)
  have b: "set stages_order \<subseteq> set (stage_keys example_context)" by (simp add: example_keys)
  from a b rollback_to_stage_idempotent [OF a b] show ?thesis by blast
qed


section \<open>Starting from an arbitrary stage: what is assigned\<close>

text \<open>
  Claim C4, as amended. When every skipped stage has an entry, starting from a stage
  returns a context in which the current stage is the target and every skipped stage is
  completed with its recorded fields kept; a stage after the target that is not among
  the skipped ones keeps its entry as it was, and the list of stage keys is the same.
\<close>

theorem start_from_stage_effect:
  assumes "set skipped \<subseteq> set (stage_keys ctx)"
  shows "\<exists>ctx'. start_from_stage target skipped ctx = Inr ctx' \<and>
           current_stage ctx' = target \<and>
           (\<forall>s \<in> set skipped.
              \<exists>r. stage_of ctx s = Some r \<and> stage_of ctx' s = Some (r\<lparr>status := completed\<rparr>)) \<and>
           (\<forall>s \<in> set (later_stages target). s \<notin> set skipped \<longrightarrow> stage_of ctx' s = stage_of ctx s) \<and>
           stage_keys ctx' = stage_keys ctx"
proof -
  let ?c = "ctx\<lparr>current_stage := target\<rparr>"
  have k: "stage_keys ?c = stage_keys ctx" by (simp add: stage_keys_def)
  have sc: "stage_of ?c = stage_of ctx" by (simp add: stage_of_def fun_eq_iff)
  from assms have "set skipped \<subseteq> set (stage_keys ?c)" by (simp add: k)
  from set_all_status_total [OF this] obtain ctx'
    where r: "set_all_status completed skipped ?c = Inr ctx'" by blast
  note F = set_all_status_fields [OF r]
  note S = set_all_status_stage_of [OF r]
  have 1: "start_from_stage target skipped ctx = Inr ctx'"
    using r by (simp add: start_from_stage_def)
  have 2: "current_stage ctx' = target" using F by simp
  have 3: "\<exists>r. stage_of ctx s = Some r \<and> stage_of ctx' s = Some (r\<lparr>status := completed\<rparr>)"
    if "s \<in> set skipped" for s
  proof -
    from set_all_status_entries [OF r that] obtain r' where "stage_of ctx s = Some r'"
      by (auto simp: sc)
    with S [of s] that show ?thesis by (simp add: sc)
  qed
  have 4: "stage_of ctx' s = stage_of ctx s" if "s \<notin> set skipped" for s
    using S [of s] that by (simp add: sc)
  have 5: "stage_keys ctx' = stage_keys ctx" using F k by simp
  from 1 2 3 4 5 show ?thesis by blast
qed

theorem start_from_stage_effect_witness:
  "set [''literature_review'', ''hypothesis'', ''code''] \<subseteq> set (stage_keys finished_context) \<and>
   (\<exists>ctx'. start_from_stage ''experiment'' [''literature_review'', ''hypothesis'', ''code'']
             finished_context = Inr ctx' \<and>
           current_stage ctx' = ''experiment'' \<and>
           (\<forall>s \<in> set [''literature_review'', ''hypothesis'', ''code''].
              \<exists>r. stage_of finished_context s = Some r \<and>
                  stage_of ctx' s = Some (r\<lparr>status := completed\<rparr>)) \<and>
           (\<forall>s \<in> set (later_stages ''experiment'').
              s \<notin> set [''literature_review'', ''hypothesis'', ''code''] \<longrightarrow>
              stage_of ctx' s = stage_of finished_context s) \<and>
           stage_keys ctx' = stage_keys finished_context)"
proof -
  have a: "set [''literature_review'', ''hypothesis'', ''code''] \<subseteq> set (stage_keys finished_context)"
    by (simp add: stage_keys_def finished_context_def)
  from a start_from_stage_effect [OF a, of "''experiment''"] show ?thesis by blast
qed

text \<open>
  The guide's snippet on a project whose stages are all completed: the writing stage, which
  comes after the experiment, stays completed, and so does the experiment stage itself.
\<close>

theorem start_from_experiment_counterexample:
  "status_in ''writing'' (start_from_experiment finished_context) = Some completed \<and>
   status_in ''experiment'' (start_from_experiment finished_context) = Some completed \<and>
   current_in (start_from_experiment finished_context) = Some ''experiment''"
  by (simp add: start_from_experiment_def set_status_def finished_context_def
      completed_stage_def status_in_def current_in_def stage_of_def)

section \<open>Advance\<close>

lemma load_save_NoFault:
  "load (snd (save NoFault p st)) (pipeline_id p) = Inr p"
  by (simp add: load_def update_conv')

lemma advance_failing:
  assumes "stage_of p (current_stage p) = Some r"
    and "status r = pending \<or> status r = in_progress"
    and "\<not> ok (validate reg (current_stage p) out)"
  shows "advance reg p out =
     Inr (validate reg (current_stage p) out,
          p\<lparr>stages := AList.update (current_stage p)
               (r\<lparr>status := failed, outputs := out,
                  error := Some (ValidationFailed (missing (validate reg (current_stage p) out)))\<rparr>)
               (stages p)\<rparr>)"
  using assms by (auto simp: advance_def Let_def)

lemma stage_failed_Inr:
  assumes "stage_of p s = Some r"
  shows "stage_failed s e p =
     Inr (p\<lparr>stages := AList.update s (r\<lparr>status := failed, error := Some e\<rparr>) (stages p)\<rparr>)"
  using assms by (simp add: stage_failed_def set_status_def set_error_def stage_of_def update_conv')

text \<open>
  The failing branch of \<open>advance\<close> leaves what the guide's failure assignments leave, with the
  submitted output written in addition.
\<close>

lemma advance_failing_as_stage_failed:
  assumes "stage_of p (current_stage p) = Some r"
    and "status r = pending \<or> status r = in_progress"
    and "\<not> ok (validate reg (current_stage p) out)"
  shows "\<exists>res p' c. advance reg p out = Inr (res, p') \<and>
           stage_failed (current_stage p) (ValidationFailed (missing res)) p = Inr c \<and>
           current_stage p' = current_stage c \<and>
           stage_of p' (current_stage p)
             = map_option (\<lambda>r. r\<lparr>outputs := out\<rparr>) (stage_of c (current_stage p))"
proof -
  let ?res = "validate reg (current_stage p) out"
  let ?e = "ValidationFailed (missing ?res)"
  have "stage_of (p\<lparr>stages := AList.update (current_stage p)
            (r\<lparr>status := failed, outputs := out, error := Some ?e\<rparr>) (stages p)\<rparr>) (current_stage p)
      = map_option (\<lambda>r. r\<lparr>outputs := out\<rparr>)
          (stage_of (p\<lparr>stages := AList.update (current_stage p)
            (r\<lparr>status := failed, error := Some ?e\<rparr>) (stages p)\<rparr>) (current_stage p))"
    by (simp add: stage_of_def update_conv')
  with advance_failing [OF assms] stage_failed_Inr [OF assms(1), of ?e] show ?thesis
    by auto
qed

lemma advance_completed:
  assumes "stage_of p (current_stage p) = Some r" and "status r = completed"
  shows "advance reg p out = Inl InvalidTransition"
  using assms by (simp add: advance_def Let_def)

lemma advance_Inr_status:
  assumes "advance reg p out = Inr x" and "stage_of p (current_stage p) = Some r"
  shows "status r = pending \<or> status r = in_progress"
  using assms by (auto simp: advance_def Let_def split: if_splits)

lemma validate_missing:
  "map_of reg stage = Some required \<Longrightarrow>
     validate reg stage out =
       \<lparr>ok = (missing_fields out required = []), missing = missing_fields out required\<rparr>"
  by (simp add: validate_def Let_def)

text \<open>
  Claim C3. Let \<open>p\<close> be the stored pipeline, its current stage pending or in progress with
  required fields \<open>required\<close>, and let the submitted output fail validation. With a save
  that goes through, \<open>advance\<close> returns the validation result whose missing list is exactly
  the required fields absent from the output (and is not empty); the stored pipeline
  afterwards has the same current stage, and that stage's entry holds the status
  \<open>failed\<close>, the submitted output and the missing fields.
\<close>

theorem advance_validation_failure:
  assumes "load st (pipeline_id p) = Inr p"
    and "stage_of p (current_stage p) = Some r"
    and "status r = pending \<or> status r = in_progress"
    and "map_of reg (current_stage p) = Some required"
    and "\<not> ok (validate reg (current_stage p) out)"
  shows "\<exists>st' p'.
           missing_fields out required \<noteq> [] \<and>
           advance_command reg NoFault (pipeline_id p) out st
             = (Inr \<lparr>ok = False, missing = missing_fields out required\<rparr>, st') \<and>
           load st' (pipeline_id p) = Inr p' \<and>
           current_stage p' = current_stage p \<and>
           stage_of p' (current_stage p)
             = Some (r\<lparr>status := failed, outputs := out,
                       error := Some (ValidationFailed (missing_fields out required))\<rparr>)"
proof -
  let ?absent = "missing_fields out required"
  let ?r' = "r\<lparr>status := failed, outputs := out, error := Some (ValidationFailed ?absent)\<rparr>"
  let ?p' = "p\<lparr>stages := AList.update (current_stage p) ?r' (stages p)\<rparr>"
  let ?st' = "snd (save NoFault ?p' st)"
  have v: "validate reg (current_stage p) out = \<lparr>ok = (?absent = []), missing = ?absent\<rparr>"
    using assms(4) by (rule validate_missing)
  with assms(5) have ne: "?absent \<noteq> []" by simp
  with v have v': "validate reg (current_stage p) out = \<lparr>ok = False, missing = ?absent\<rparr>" by simp
  have a: "advance reg p out = Inr (\<lparr>ok = False, missing = ?absent\<rparr>, ?p')"
    using advance_failing [OF assms(2,3,5)] by (simp add: v')
  have id: "pipeline_id ?p' = pipeline_id p" by (simp add: pipeline_id_def)
  have c: "advance_command reg NoFault (pipeline_id p) out st
             = (Inr \<lparr>ok = False, missing = ?absent\<rparr>, ?st')"
    by (simp add: advance_command_def assms(1) a)
  have l: "load ?st' (pipeline_id p) = Inr ?p'"
    using load_save_NoFault [of ?p' st] by (simp only: id)
  have s: "stage_of ?p' (current_stage p) = Some ?r'"
    by (simp add: stage_of_def update_conv')
  have "current_stage ?p' = current_stage p" by simp
  with ne c l s show ?thesis by blast
qed

lemma demo_draft_load: "load (store_of demo_at_draft) (pipeline_id demo_at_draft) = Inr demo_at_draft"
  by (simp add: load_def store_of_def)

theorem advance_validation_failure_witness:
  "load (store_of demo_at_draft) (pipeline_id demo_at_draft) = Inr demo_at_draft \<and>
   stage_of demo_at_draft (current_stage demo_at_draft) = Some pending_stage \<and>
   (status pending_stage = pending \<or> status pending_stage = in_progress) \<and>
   map_of demo_registry (current_stage demo_at_draft) = Some [''text''] \<and>
   \<not> ok (validate demo_registry (current_stage demo_at_draft) []) \<and>
   (\<exists>st' p'.
      advance_command demo_registry NoFault ''demo'' [] (store_of demo_at_draft)
        = (Inr \<lparr>ok = False, missing = [''text'']\<rparr>, st') \<and>
      load st' ''demo'' = Inr p' \<and>
      current_stage p' = ''draft'' \<and>
      stage_of p' ''draft''
        = Some \<lparr>status = failed, outputs = [], error = Some (ValidationFailed [''text''])\<rparr>)"
proof -
  have 1: "load (store_of demo_at_draft) (pipeline_id demo_at_draft) = Inr demo_at_draft"
    by (rule demo_draft_load)
  have 2: "stage_of demo_at_draft (current_stage demo_at_draft) = Some pending_stage"
    by (simp add: stage_of_def demo_at_draft_def demo_context_def)
  have 3: "status pending_stage = pending \<or> status pending_stage = in_progress"
    by (simp add: pending_stage_def)
  have 4: "map_of demo_registry (current_stage demo_at_draft) = Some [''text'']"
    by (simp add: demo_registry_def demo_at_draft_def demo_context_def)
  have 5: "\<not> ok (validate demo_registry (current_stage demo_at_draft) [])"
    by (simp add: validate_def demo_registry_def demo_at_draft_def demo_context_def
        field_present_def missing_fields_def)
  have c: "current_stage demo_at_draft = ''draft''" "pipeline_id demo_at_draft = ''demo''"
    by (simp_all add: demo_at_draft_def demo_context_def pipeline_id_def)
  have f: "missing_fields [] [''text''] = [''text'']"
    by (simp add: missing_fields_def field_present_def)
  have p: "pending_stage\<lparr>status := failed, outputs := [], error := Some (ValidationFailed [''text''])\<rparr>
     = \<lparr>status = failed, outputs = [], error = Some (ValidationFailed [''text''])\<rparr>"
    by (simp add: pending_stage_def)
  from advance_validation_failure [OF 1 2 3 4 5]
  have "\<exists>st' p'.
      advance_command demo_registry NoFault ''demo'' [] (store_of demo_at_draft)
        = (Inr \<lparr>ok = False, missing = [''text'']\<rparr>, st') \<and>
      load st' ''demo'' = Inr p' \<and>
      current_stage p' = ''draft'' \<and>
      stage_of p' ''draft''
        = Some \<lparr>status = failed, outputs = [], error = Some (ValidationFailed [''text''])\<rparr>"
    unfolding c f p by blast
  with 1 2 3 4 5 show ?thesis by blast
qed

text \<open>
  Claim C5. For a stored pipeline, \<open>advance\<close> on a current stage that is completed is
  rejected with \<open>InvalidTransition\<close> and returns the store as it was, whatever the outcome
  a save would have had; and \<open>advance\<close> returns a validation result only when the current
  stage is pending or in progress.
\<close>

theorem advance_only_from_pending_or_in_progress:
  assumes "load st pid = Inr p" and "stage_of p (current_stage p) = Some r"
  shows "(status r = completed \<longrightarrow>
            advance_command reg fault pid out st = (Inl InvalidTransition, st)) \<and>
         ((\<exists>res st'. advance_command reg fault pid out st = (Inr res, st')) \<longrightarrow>
            status r = pending \<or> status r = in_progress)"
proof (intro conjI impI)
  assume "status r = completed"
  with assms show "advance_command reg fault pid out st = (Inl InvalidTransition, st)"
    by (simp add: advance_command_def advance_completed)
next
  assume "\<exists>res st'. advance_command reg fault pid out st = (Inr res, st')"
  then obtain x where "advance reg p out = Inr x"
    using assms(1) by (cases "advance reg p out") (auto simp: advance_command_def)
  then show "status r = pending \<or> status r = in_progress"
    using assms(2) by (rule advance_Inr_status)
qed

theorem advance_only_from_pending_or_in_progress_witness:
  "load (store_of demo_finished) ''demo'' = Inr demo_finished \<and>
   stage_of demo_finished (current_stage demo_finished)
     = Some \<lparr>status = completed, outputs = [(''text'', JStr ''y'')], error = None\<rparr> \<and>
   advance_command demo_registry NoFault ''demo'' [(''text'', JStr ''z'')] (store_of demo_finished)
     = (Inl InvalidTransition, store_of demo_finished) \<and>
   load (store_of demo_at_draft) ''demo'' = Inr demo_at_draft \<and>
   stage_of demo_at_draft (current_stage demo_at_draft) = Some pending_stage \<and>
   advance_command demo_registry NoFault ''demo'' [(''text'', JStr ''z'')] (store_of demo_at_draft)
     = (Inr \<lparr>ok = True, missing = []\<rparr>,
        \<lparr>persisted = [(''demo'', Whole (demo_finished
             \<lparr>stages := [(''search'', \<lparr>status = completed, outputs = [(''query'', JStr ''x'')],
                                       error = None\<rparr>),
                          (''draft'', \<lparr>status = completed, outputs = [(''text'', JStr ''z'')],
                                      error = None\<rparr>)]\<rparr>))],
          staged = None\<rparr>) \<and>
   (status pending_stage = pending \<or> status pending_stage = in_progress)"
proof -
  have 1: "load (store_of demo_finished) ''demo'' = Inr demo_finished"
    by (simp add: load_def store_of_def pipeline_id_def demo_finished_def demo_context_def)
  have 2: "stage_of demo_finished (current_stage demo_finished)
     = Some \<lparr>status = completed, outputs = [(''text'', JStr ''y'')], error = None\<rparr>"
    by (simp add: stage_of_def demo_finished_def demo_context_def)
  from advance_only_from_pending_or_in_progress
    [OF 1 2, of demo_registry NoFault "[(''text'', JStr ''z'')]"]
  have 3: "advance_command demo_registry NoFault ''demo'' [(''text'', JStr ''z'')]
      (store_of demo_finished) = (Inl InvalidTransition, store_of demo_finished)"
    by simp
  have 4: "load (store_of demo_at_draft) ''demo'' = Inr demo_at_draft"
    by (simp add: load_def store_of_def pipeline_id_def demo_at_draft_def demo_context_def)
  have 5: "stage_of demo_at_draft (current_stage demo_at_draft) = Some pending_stage"
    by (simp add: stage_of_def demo_at_draft_def demo_context_def)
  have 6: "advance_command demo_registry NoFault ''demo'' [(''text'', JStr ''z'')]
      (store_of demo_at_draft)
     = (Inr \<lparr>ok = True, missing = []\<rparr>,
        \<lparr>persisted = [(''demo'', Whole (demo_finished
             \<lparr>stages := [(''search'', \<lparr>status = completed, outputs = [(''query'', JStr ''x'')],
                                       error = None\<rparr>),
                          (''draft'', \<lparr>status = completed, outputs = [(''text'', JStr ''z'')],
                                      error = None\<rparr>)]\<rparr>))],
          staged = None\<rparr>)"
    by (simp add: advance_command_def load_def store_of_def pipeline_id_def advance_def
        stage_of_def validate_def missing_fields_def field_present_def next_stage_def
        registry_ids_def demo_registry_def demo_at_draft_def demo_finished_def
        demo_context_def pending_stage_def Let_def)
  from advance_only_from_pending_or_in_progress
    [OF 4 5, of demo_registry NoFault "[(''text'', JStr ''z'')]"] 6
  have 7: "status pending_stage = pending \<or> status pending_stage = in_progress"
    by blast
  from 1 2 3 4 5 6 7 show ?thesis by blast
qed

section \<open>Jumps out of order\<close>








section \<open>The stage keys of a reachable pipeline\<close>













section \<open>Saving and loading\<close>

text \<open>
  Claim C8. A save that reports no failure has replaced the record of the pipeline's
  identifier by the saved pipeline, and is followed by a load of the same identifier
  that returns the saved pipeline itself; a save that fails reports \<open>IOError\<close> and leaves
  every persisted record, and so every load, as before (a torn write reaches the staging
  place only); a save without a fault succeeds; and no save changes what a load of another
  identifier returns.
\<close>

theorem save_load_round_trip:
  "(fst (save fault p st) = None \<longrightarrow>
      load (snd (save fault p st)) (pipeline_id p) = Inr p \<and>
      persisted (snd (save fault p st))
        = AList.update (pipeline_id p) (Whole p) (persisted st)) \<and>
   (fst (save fault p st) \<noteq> None \<longrightarrow>
      fst (save fault p st) = Some IOError \<and>
      persisted (snd (save fault p st)) = persisted st \<and>
      (\<forall>pid. load (snd (save fault p st)) pid = load st pid)) \<and>
   (fault = NoFault \<longrightarrow> fst (save fault p st) = None) \<and>
   (\<forall>pid. pid \<noteq> pipeline_id p \<longrightarrow> load (snd (save fault p st)) pid = load st pid)"
proof (cases fault)
  case NoFault
  then show ?thesis by (simp add: load_def update_conv')
next
  case FailBeforeWrite
  then show ?thesis by simp
next
  case FailDuringWrite
  then show ?thesis by (simp add: load_def)
next
  case FailBeforeReplace
  then show ?thesis by (simp add: load_def)
qed

theorem save_load_round_trip_witness:
  "fst (save NoFault demo_at_draft (store_of demo_context)) = None \<and>
   load (snd (save NoFault demo_at_draft (store_of demo_context))) ''demo'' = Inr demo_at_draft \<and>
   fst (save FailDuringWrite demo_at_draft (store_of demo_context)) = Some IOError \<and>
   load (snd (save FailDuringWrite demo_at_draft (store_of demo_context))) ''demo''
     = Inr demo_context"
proof -
  have i: "pipeline_id demo_at_draft = ''demo''" "pipeline_id demo_context = ''demo''"
    by (simp_all add: pipeline_id_def demo_at_draft_def demo_context_def)
  have l: "load (store_of demo_context) ''demo'' = Inr demo_context"
    by (simp add: load_def store_of_def i)
  have n: "fst (save FailDuringWrite demo_at_draft (store_of demo_context)) \<noteq> None" by simp
  have a: "fst (save NoFault demo_at_draft (store_of demo_context)) = None" by simp
  from save_load_round_trip [of NoFault demo_at_draft "store_of demo_context"] a
  have 1: "load (snd (save NoFault demo_at_draft (store_of demo_context))) ''demo'' = Inr demo_at_draft"
    unfolding i by blast
  from save_load_round_trip [of FailDuringWrite demo_at_draft "store_of demo_context"] n
  have 2: "fst (save FailDuringWrite demo_at_draft (store_of demo_context)) = Some IOError"
    and 3: "load (snd (save FailDuringWrite demo_at_draft (store_of demo_context))) ''demo''
      = load (store_of demo_context) ''demo''"
    by blast+
  from a 1 2 3 l show ?thesis by (simp only: simp_thms)
qed

section \<open>Members of the stored document\<close>

lemma getitem_Inr: "getitem d k = Inr v \<Longrightarrow> \<exists>kvs. d = JObj kvs \<and> map_of kvs k = Some v"
  by (cases d) (auto split: option.splits)

lemma setitem_Inr: "setitem d k v = Inr d' \<Longrightarrow> \<exists>kvs. d = JObj kvs \<and> d' = JObj (AList.update k v kvs)"
  by (cases d) auto

lemma setitem_members:
  assumes "setitem d k v = Inr d'"
  shows "member_names d' = (if k \<in> set (member_names d) then member_names d else member_names d @ [k])"
    and "\<And>k'. k' \<noteq> k \<Longrightarrow> getitem d' k' = getitem d k'"
proof -
  from setitem_Inr [OF assms] obtain kvs
    where d: "d = JObj kvs" "d' = JObj (AList.update k v kvs)" by blast
  show "member_names d' = (if k \<in> set (member_names d) then member_names d else member_names d @ [k])"
    by (simp add: d update_keys)
  show "getitem d' k' = getitem d k'" if "k' \<noteq> k" for k'
    using that by (simp add: d update_conv')
qed

lemma assign_status_members:
  assumes "assign_status stage v d = Inr d'"
  shows "member_names d' = member_names d"
    and "\<And>k. k \<noteq> ''stages'' \<Longrightarrow> getitem d' k = getitem d k"
proof -
  from assms obtain ss where g: "getitem d ''stages'' = Inr ss"
    by (cases "getitem d ''stages''") (auto simp: assign_status_def)
  from assms g obtain ss' where s: "setitem d ''stages'' ss' = Inr d'"
    by (auto simp: assign_status_def split: sum.splits)
  from getitem_Inr [OF g] obtain kvs where "d = JObj kvs" "map_of kvs ''stages'' = Some ss"
    by blast
  then have "''stages'' \<in> set (member_names d)"
    by (force dest: map_of_SomeD)
  with setitem_members(1) [OF s] show "member_names d' = member_names d" by simp
  show "getitem d' k = getitem d k" if "k \<noteq> ''stages''" for k
    using setitem_members(2) [OF s that] .
qed

lemma assign_all_status_members:
  "assign_all_status v ss d = Inr d' \<Longrightarrow>
     member_names d' = member_names d \<and> (\<forall>k. k \<noteq> ''stages'' \<longrightarrow> getitem d' k = getitem d k)"
proof (induction ss arbitrary: d)
  case Nil
  then show ?case by simp
next
  case (Cons s ss)
  from Cons.prems obtain d1 where 1: "assign_status s v d = Inr d1"
    and 2: "assign_all_status v ss d1 = Inr d'"
    by (cases "assign_status s v d") auto
  from Cons.IH [OF 2] assign_status_members [OF 1] show ?case by simp
qed

lemma rollback_to_stage_document_members:
  assumes "rollback_to_stage_document target d = Inr d'"
  shows "member_names d' =
           (if ''current_stage'' \<in> set (member_names d) then member_names d
            else member_names d @ [''current_stage''])"
    and "\<And>k. k \<noteq> ''current_stage'' \<Longrightarrow> k \<noteq> ''stages'' \<Longrightarrow> getitem d' k = getitem d k"
proof -
  from assms obtain i d1 d2
    where 1: "assign_all_status ''pending'' (drop (i + 1) stages_order) d = Inr d1"
      and 2: "setitem d1 ''current_stage'' (JStr target) = Inr d2"
      and 3: "assign_status target ''in_progress'' d2 = Inr d'"
    by (auto simp: rollback_to_stage_document_def split: option.splits sum.splits)
  from assign_all_status_members [OF 1] setitem_members(1) [OF 2] assign_status_members(1) [OF 3]
  show "member_names d' =
           (if ''current_stage'' \<in> set (member_names d) then member_names d
            else member_names d @ [''current_stage''])"
    by simp
  show "getitem d' k = getitem d k" if "k \<noteq> ''current_stage''" "k \<noteq> ''stages''" for k
    using assign_all_status_members [OF 1] setitem_members(2) [OF 2 that(1)]
      assign_status_members(2) [OF 3 that(2)] that by simp
qed

lemma start_from_experiment_document_members:
  assumes "start_from_experiment_document d = Inr d'"
  shows "member_names d' =
           (if ''current_stage'' \<in> set (member_names d) then member_names d
            else member_names d @ [''current_stage''])"
    and "\<And>k. k \<noteq> ''current_stage'' \<Longrightarrow> k \<noteq> ''stages'' \<Longrightarrow> getitem d' k = getitem d k"
proof -
  from assms obtain d1 d2 d3
    where 1: "setitem d ''current_stage'' (JStr ''experiment'') = Inr d1"
      and 2: "assign_status ''literature_review'' ''completed'' d1 = Inr d2"
      and 3: "assign_status ''hypothesis'' ''completed'' d2 = Inr d3"
      and 4: "assign_status ''code'' ''completed'' d3 = Inr d'"
    by (auto simp: start_from_experiment_document_def split: sum.splits)
  from setitem_members(1) [OF 1] assign_status_members(1) [OF 2]
    assign_status_members(1) [OF 3] assign_status_members(1) [OF 4]
  show "member_names d' =
           (if ''current_stage'' \<in> set (member_names d) then member_names d
            else member_names d @ [''current_stage''])"
    by simp
  show "getitem d' k = getitem d k" if "k \<noteq> ''current_stage''" "k \<noteq> ''stages''" for k
    using setitem_members(2) [OF 1 that(1)] assign_status_members(2) [OF 2 that(2)]
      assign_status_members(2) [OF 3 that(2)] assign_status_members(2) [OF 4 that(2)] by simp
qed

text \<open>
  Claim C9, as amended. The record that \<open>rollback_to_stage\<close> or the guide's start from the
  experiment stage hands to the save has the top-level members of the record that was
  loaded, in their order, with \<open>current_stage\<close> appended when it was missing, and every
  member other than \<open>current_stage\<close> and \<open>stages\<close> has the value it had: the saved record
  has a \<open>schemaVersion\<close> member exactly when the loaded record had one.
\<close>

theorem saved_document_members:
  assumes "rollback_to_stage_document target d = Inr d' \<or> start_from_experiment_document d = Inr d'"
  shows "member_names d' =
           (if ''current_stage'' \<in> set (member_names d) then member_names d
            else member_names d @ [''current_stage'']) \<and>
         getitem d' ''schemaVersion'' = getitem d ''schemaVersion'' \<and>
         (''schemaVersion'' \<in> set (member_names d') \<longleftrightarrow> ''schemaVersion'' \<in> set (member_names d))"
proof -
  from assms rollback_to_stage_document_members(1) start_from_experiment_document_members(1)
  have m: "member_names d' =
           (if ''current_stage'' \<in> set (member_names d) then member_names d
            else member_names d @ [''current_stage''])"
    by blast
  have "getitem d' k = getitem d k" if "k \<noteq> ''current_stage''" "k \<noteq> ''stages''" for k
    using assms rollback_to_stage_document_members(2) [OF _ that]
      start_from_experiment_document_members(2) [OF _ that] by blast
  then have g: "getitem d' ''schemaVersion'' = getitem d ''schemaVersion''" by simp
  from m have "''schemaVersion'' \<in> set (member_names d') \<longleftrightarrow> ''schemaVersion'' \<in> set (member_names d)"
    by (simp split: if_splits)
  with m g show ?thesis by blast
qed

lemma rollback_example_document:
  "rollback_to_stage_document ''hypothesis'' skill_example_document = Inr example_rolled_back"
  by (simp add: rollback_to_stage_document_def stages_order_def assign_status_def
      skill_example_document_def example_rolled_back_def)

lemma start_example_document:
  "start_from_experiment_document skill_example_document = Inr example_started"
  by (simp add: start_from_experiment_document_def assign_status_def
      skill_example_document_def example_started_def)

theorem saved_document_members_witness:
  "rollback_to_stage_document ''hypothesis'' skill_example_document = Inr example_rolled_back \<and>
   member_names example_rolled_back
     = [''project_name'', ''current_stage'', ''stages'', ''user_preferences''] \<and>
   getitem example_rolled_back ''schemaVersion'' = Inl KeyError \<and>
   start_from_experiment_document skill_example_document = Inr example_started \<and>
   member_names example_started
     = [''project_name'', ''current_stage'', ''stages'', ''user_preferences''] \<and>
   getitem example_started ''schemaVersion'' = Inl KeyError"
proof -
  have a: "rollback_to_stage_document ''hypothesis'' skill_example_document = Inr example_rolled_back \<or>
           start_from_experiment_document skill_example_document = Inr example_rolled_back"
    by (simp add: rollback_example_document)
  have a': "rollback_to_stage_document target skill_example_document = Inr example_started \<or>
           start_from_experiment_document skill_example_document = Inr example_started" for target
    by (simp add: start_example_document)
  have b: "member_names skill_example_document
     = [''project_name'', ''current_stage'', ''stages'', ''user_preferences'']"
    by (simp add: skill_example_document_def)
  have c: "getitem skill_example_document ''schemaVersion'' = Inl KeyError"
    by (simp add: skill_example_document_def)
  from saved_document_members [OF a] b c
  have 1: "member_names example_rolled_back
     = [''project_name'', ''current_stage'', ''stages'', ''user_preferences'']"
    "getitem example_rolled_back ''schemaVersion'' = Inl KeyError"
    by simp_all
  from saved_document_members [OF a' [of "''code''"]] b c
  have 2: "member_names example_started
     = [''project_name'', ''current_stage'', ''stages'', ''user_preferences'']"
    "getitem example_started ''schemaVersion'' = Inl KeyError"
    by simp_all
  from 1 2 rollback_example_document start_example_document show ?thesis by simp
qed

text \<open>
  The example record of the skill description has no \<open>schemaVersion\<close> member, and the
  record that a rollback to the hypothesis stage saves for it has none either.
\<close>

theorem schema_version_counterexample:
  "''schemaVersion'' \<notin> set (member_names skill_example_document) \<and>
   rollback_to_stage_document ''hypothesis'' skill_example_document = Inr example_rolled_back \<and>
   ''schemaVersion'' \<notin> set (member_names example_rolled_back)"
  by (simp add: rollback_to_stage_document_def stages_order_def assign_status_def
      skill_example_document_def example_rolled_back_def)

section \<open>The installer: what it writes and what it leaves\<close>




lemma lookup_update_child:
  "lookup (Dir (AList.update x ch' es)) (y # ys) =
     (if y = x then lookup ch' ys else lookup (Dir es) (y # ys))"
  by (simp add: update_conv')
















lemma append_image_Cons: "(@) (dest @ [nm]) ` S = (@) dest ` ((#) nm ` S)"
  by (auto simp: image_iff)
































end
